theory Spec2Isabelle
  imports Main "HOL-Library.AList"
begin

section \<open>Data model of diff.py\<close>

text \<open>
  Byte strings (Python \<open>bytes\<close>) are lists of 8-bit characters, so that a literal reads
  \<open>''AAAAAAAA''\<close>. Python integers are \<open>int\<close>; lengths and file positions, which are never
  negative, are \<open>nat\<close>.
\<close>

type_synonym bytes = "char list"

definition BLOCK_SIZE :: nat where
  "BLOCK_SIZE = 8"

datatype OperationType = DATA | BLOCK_RANGE | SYMLINK | DELETE | MKDIR

record Operation =
  op_type :: OperationType
  file_index :: int
  block_index :: int
  block_span :: int
  data :: bytes
  target_path :: string

text \<open>
  A Python \<open>set\<close> of names is a duplicate-free list: the order of the list stands for the
  iteration order of the set, which Python leaves open.
\<close>

record Patch =
  old_dirs :: "string list"
  new_dirs :: "string list"
  deleted_files :: "string list"
  extra_files :: "string list"
  operations :: "Operation list"

text \<open>\<open>Operation.__init__\<close> with its keyword defaults (line 24).\<close>

definition Operation_init :: "OperationType \<Rightarrow> int \<Rightarrow> int \<Rightarrow> bytes \<Rightarrow> string \<Rightarrow> Operation" where
  "Operation_init t bi bs d tp =
     \<lparr>op_type = t, file_index = 0, block_index = bi, block_span = bs, data = d, target_path = tp\<rparr>"

subsection \<open>The file system\<close>

text \<open>
  A directory is the list of its entries in listing order. A symbolic link carries its link
  text and what it resolves to, since \<open>is_file\<close>, \<open>is_dir\<close>, \<open>isfile\<close>, \<open>isdir\<close> and
  \<open>open\<close> follow links while \<open>islink\<close> does not. What a link resolves to is part of
  the state: a link whose text leads into a subdirectory carries what is found there, so a
  change of that subdirectory is a change of the link's entry too. \<open>Other\<close> stands for an
  entry that is neither (a FIFO, a socket, a device). Names are single path components, as
  \<open>os.scandir\<close> returns them.
\<close>

datatype link_dest = ToFile bytes | ToDir | ToOther | Dangling

datatype node = File bytes | Dir "(string \<times> node) list" | Symlink string link_dest | Other

type_synonym entries = "(string \<times> node) list"

datatype error =
  FileNotFoundError | IsADirectoryError | FileExistsError | OSError | ValueError |
  UnicodeDecodeError

datatype event = Remove string string | Rmdir string string | Rmtree string | Move string

text \<open>
  The state of the file system: the directory trees by root path, the staging directory of
  the current apply run (\<open>tempfile.mkdtemp\<close> always returns a fresh directory, so it is
  kept apart from the named roots), and the log of the mutations of the named roots, oldest
  first. Root paths that exist are directories, and distinct root paths name disjoint trees.
\<close>

record fs =
  roots :: "string \<Rightarrow> entries option"
  staging :: "entries option"
  log :: "event list"

fun is_file :: "node \<Rightarrow> bool" where
  "is_file (File _) = True"
| "is_file (Symlink _ (ToFile _)) = True"
| "is_file _ = False"

fun is_dir :: "node \<Rightarrow> bool" where
  "is_dir (Dir _) = True"
| "is_dir (Symlink _ ToDir) = True"
| "is_dir _ = False"

fun is_link :: "node \<Rightarrow> bool" where
  "is_link (Symlink _ _) = True"
| "is_link _ = False"

text \<open>\<open>os.path.isfile\<close>, \<open>isdir\<close>, \<open>islink\<close> of a path below a root: False when nothing is there.\<close>

definition isfile :: "entries option \<Rightarrow> string \<Rightarrow> bool" where
  "isfile d name = (case d of None \<Rightarrow> False | Some es \<Rightarrow>
     (case map_of es name of None \<Rightarrow> False | Some n \<Rightarrow> is_file n))"

definition isdir :: "entries option \<Rightarrow> string \<Rightarrow> bool" where
  "isdir d name = (case d of None \<Rightarrow> False | Some es \<Rightarrow>
     (case map_of es name of None \<Rightarrow> False | Some n \<Rightarrow> is_dir n))"

definition islink :: "entries option \<Rightarrow> string \<Rightarrow> bool" where
  "islink d name = (case d of None \<Rightarrow> False | Some es \<Rightarrow>
     (case map_of es name of None \<Rightarrow> False | Some n \<Rightarrow> is_link n))"

text \<open>
  \<open>open(path, 'rb')\<close> followed by reads: the content of the file the path resolves to.
  Opening an entry of kind \<open>Other\<close> is modelled as the error a socket gives.
\<close>

fun node_content :: "node \<Rightarrow> error + bytes" where
  "node_content (File c) = Inr c"
| "node_content (Symlink _ (ToFile c)) = Inr c"
| "node_content (Dir _) = Inl IsADirectoryError"
| "node_content (Symlink _ ToDir) = Inl IsADirectoryError"
| "node_content (Symlink _ Dangling) = Inl FileNotFoundError"
| "node_content (Symlink _ ToOther) = Inl OSError"
| "node_content Other = Inl OSError"

definition open_rb :: "entries option \<Rightarrow> string \<Rightarrow> error + bytes" where
  "open_rb d name = (case d of None \<Rightarrow> Inl FileNotFoundError | Some es \<Rightarrow>
     (case map_of es name of None \<Rightarrow> Inl FileNotFoundError | Some n \<Rightarrow> node_content n))"

text \<open>
  \<open>open(path, 'r').read()\<close>: the same content decoded as text. The encoding is the one
  of the platform, which the source does not fix, so the decoding (newline translation
  included) is a parameter: it gives the text of a byte string, or nothing where Python
  raises \<open>UnicodeDecodeError\<close>.
\<close>

type_synonym decoder = "bytes \<Rightarrow> string option"

definition open_r :: "decoder \<Rightarrow> entries option \<Rightarrow> string \<Rightarrow> error + string" where
  "open_r dec d name =
     (case open_rb d name of
        Inl e \<Rightarrow> Inl e
      | Inr c \<Rightarrow> (case dec c of None \<Rightarrow> Inl UnicodeDecodeError | Some t \<Rightarrow> Inr t))"

text \<open>
  One decoding, for the closed examples: 7-bit ASCII with universal newlines. A byte above
  \<open>0x7F\<close> is refused; on 7-bit content the encodings that extend ASCII (UTF-8, cp1252,
  latin-1) give the same text.
\<close>

fun universal_newlines :: "string \<Rightarrow> string" where
  "universal_newlines [] = []"
| "universal_newlines [c] = [if c = CHR 0x0D then CHR 0x0A else c]"
| "universal_newlines (c # d # cs) =
     (if c = CHR 0x0D \<and> d = CHR 0x0A then CHR 0x0A # universal_newlines cs
      else if c = CHR 0x0D then CHR 0x0A # universal_newlines (d # cs)
      else c # universal_newlines (d # cs))"

definition decode_ascii :: decoder where
  "decode_ascii bs =
     (if list_all (\<lambda>b. \<not> digit7 b) bs then Some (universal_newlines bs) else None)"

subsection \<open>Open files\<close>

text \<open>An open binary file is its content and the current position.\<close>

type_synonym handle = "bytes \<times> nat"

definition file_open :: "bytes \<Rightarrow> handle" where
  "file_open c = (c, 0)"

definition tell :: "handle \<Rightarrow> nat" where
  "tell h = snd h"

text \<open>\<open>f.read(n)\<close> for \<open>n \<ge> 0\<close>: the bytes read and the file advanced past them.\<close>

definition file_read :: "nat \<Rightarrow> handle \<Rightarrow> bytes \<times> handle" where
  "file_read n h =
     (let chunk = take n (drop (snd h) (fst h)) in (chunk, (fst h, snd h + length chunk)))"

definition remaining :: "handle \<Rightarrow> nat" where
  "remaining h = length (fst h) - snd h"

lemma file_read_remaining:
  "fst (file_read n h) \<noteq> [] \<Longrightarrow> remaining (snd (file_read n h)) < remaining h"
  by (auto simp: file_read_def remaining_def Let_def)

lemma file_read_remaining_le:
  "remaining (snd (file_read n h)) \<le> remaining h"
  by (auto simp: file_read_def remaining_def Let_def)

section \<open>diff\<close>

text \<open>
  \<open>find_next_matching_block\<close> (lines 281-287): read block after block from the current
  position of the new file until one equals \<open>old_chunk\<close> or the file ends. The loop is
  \<open>fnmb_loop\<close>, with the chunk last read as an argument.
\<close>

function fnmb_loop :: "bytes \<Rightarrow> bytes \<Rightarrow> handle \<Rightarrow> bytes option \<times> handle" where
  "fnmb_loop old_chunk new_chunk new_file =
     (if new_chunk \<noteq> [] then
        if old_chunk = new_chunk then (Some new_chunk, new_file)
        else fnmb_loop old_chunk (fst (file_read BLOCK_SIZE new_file))
               (snd (file_read BLOCK_SIZE new_file))
      else (None, new_file))"
  by pat_completeness auto
termination
proof (relation "measure (\<lambda>(oc, nc, nf). remaining nf + (if nc = [] then 0 else 1))",
    goal_cases)
  case 1
  show ?case by simp
next
  case (2 old_chunk new_chunk new_file)
  show ?case
    using file_read_remaining [of BLOCK_SIZE new_file]
      file_read_remaining_le [of BLOCK_SIZE new_file] 2
    by (auto simp: case_prod_beta)
qed

declare fnmb_loop.simps [simp del]

definition find_next_matching_block :: "bytes \<Rightarrow> handle \<Rightarrow> bytes option \<times> handle" where
  "find_next_matching_block old_chunk new_file =
     fnmb_loop old_chunk (fst (file_read BLOCK_SIZE new_file))
       (snd (file_read BLOCK_SIZE new_file))"

text \<open>Python truthiness of an \<open>Optional[bytes]\<close>: \<open>None\<close> and \<open>b''\<close> are false.\<close>

fun truthy :: "bytes option \<Rightarrow> bool" where
  "truthy None = False"
| "truthy (Some b) = (b \<noteq> [])"

text \<open>
  The loop of \<open>diff\<close> over one regular file present in both trees (lines 196-221), as a
  function of the two open files and the two chunks last read; it returns the operations
  it appends. The \<open>else\<close> of the \<open>while\<close> runs when the loop condition fails, not after
  \<open>break\<close>. In the match branch line 211 reads one more block of the new file, and
  lines 216-217 then read the next chunk of both files.
\<close>

function diff_loop :: "string \<Rightarrow> handle \<Rightarrow> handle \<Rightarrow> bytes \<Rightarrow> bytes \<Rightarrow> Operation list" where
  "diff_loop file old_file new_file old_chunk new_chunk =
     (if old_chunk \<noteq> [] \<and> new_chunk \<noteq> [] then
        if old_chunk \<noteq> new_chunk then
          (let r = find_next_matching_block old_chunk new_file;
               matching_block = fst r; new_file1 = snd r in
           if truthy matching_block then
             (let block_index = int (tell new_file1) div int BLOCK_SIZE - 1;
                  block_span = int (length (the matching_block)) div int BLOCK_SIZE;
                  new_file2 = snd (file_read BLOCK_SIZE new_file1)
              in Operation_init BLOCK_RANGE block_index block_span [] file #
                 diff_loop file (snd (file_read BLOCK_SIZE old_file))
                   (snd (file_read BLOCK_SIZE new_file2))
                   (fst (file_read BLOCK_SIZE old_file))
                   (fst (file_read BLOCK_SIZE new_file2)))
           else [Operation_init DATA 0 0 new_chunk file])
        else diff_loop file (snd (file_read BLOCK_SIZE old_file))
               (snd (file_read BLOCK_SIZE new_file))
               (fst (file_read BLOCK_SIZE old_file))
               (fst (file_read BLOCK_SIZE new_file))
      else if old_chunk = [] \<and> new_chunk \<noteq> [] then [Operation_init DATA 0 0 new_chunk file]
      else [])"
  by pat_completeness auto
termination
proof (relation "measure (\<lambda>(f, old, new, oc, nc). remaining old + (if oc = [] then 0 else 1))",
    goal_cases)
  case 1
  show ?case by simp
next
  case (2 f old_file new_file old_chunk new_chunk)
  then show ?case
    using file_read_remaining [of BLOCK_SIZE old_file]
      file_read_remaining_le [of BLOCK_SIZE old_file]
    by (auto simp: case_prod_beta)
next
  case (3 f old_file new_file old_chunk new_chunk)
  then show ?case
    using file_read_remaining [of BLOCK_SIZE old_file]
      file_read_remaining_le [of BLOCK_SIZE old_file]
    by (auto simp: case_prod_beta)
qed


declare diff_loop.simps [simp del]

text \<open>
  \<open>scan_dir\<close> (lines 226-234): one listing of the directory; an entry that is (or links
  to) a directory goes to \<open>dirs\<close>, else one that is (or links to) a regular file goes to
  \<open>files\<close>, and any other entry is passed over. Nothing below an entry is looked at.
\<close>

definition dirs_of :: "entries \<Rightarrow> string list" where
  "dirs_of es = map fst (filter (\<lambda>e. is_dir (snd e)) es)"

definition files_of :: "entries \<Rightarrow> string list" where
  "files_of es = map fst (filter (\<lambda>e. \<not> is_dir (snd e) \<and> is_file (snd e)) es)"

definition scan_dir :: "fs \<Rightarrow> string \<Rightarrow> error + (string list \<times> string list)" where
  "scan_dir s dir_path =
     (case roots s dir_path of
        None \<Rightarrow> Inl FileNotFoundError
      | Some es \<Rightarrow> Inr (dirs_of es, files_of es))"

text \<open>The body of the loop over the extra files (lines 163-177).\<close>

definition extra_ops :: "decoder \<Rightarrow> entries option \<Rightarrow> string \<Rightarrow> error + Operation list" where
  "extra_ops dec new file =
     (if islink new file then
        (case open_r dec new file of
           Inl e \<Rightarrow> Inl e
         | Inr target \<Rightarrow> Inr [Operation_init SYMLINK 0 0 [] target])
      else if isdir new file then Inr [Operation_init MKDIR 0 0 [] file]
      else
        (case open_rb new file of
           Inl e \<Rightarrow> Inl e
         | Inr d \<Rightarrow> Inr [Operation_init DATA 0 0 d file]))"

text \<open>The body of the loop over the common files (lines 182-221).\<close>

definition common_ops ::
  "decoder \<Rightarrow> entries option \<Rightarrow> entries option \<Rightarrow> string \<Rightarrow> error + Operation list" where
  "common_ops dec old new file =
     (if islink old file \<or> islink new file then
        (case open_r dec new file of
           Inl e \<Rightarrow> Inl e
         | Inr target \<Rightarrow> Inr [Operation_init SYMLINK 0 0 [] target])
      else if isdir old file \<or> isdir new file then Inr [Operation_init MKDIR 0 0 [] file]
      else
        (case open_rb old file of
           Inl e \<Rightarrow> Inl e
         | Inr oc \<Rightarrow>
            (case open_rb new file of
               Inl e \<Rightarrow> Inl e
             | Inr nc \<Rightarrow>
                 Inr (diff_loop file
                        (snd (file_read BLOCK_SIZE (file_open oc)))
                        (snd (file_read BLOCK_SIZE (file_open nc)))
                        (fst (file_read BLOCK_SIZE (file_open oc)))
                        (fst (file_read BLOCK_SIZE (file_open nc)))))))"

text \<open>A loop that appends what its body yields and stops at the first exception.\<close>

fun collect :: "('a \<Rightarrow> error + 'b list) \<Rightarrow> 'a list \<Rightarrow> error + 'b list" where
  "collect f [] = Inr []"
| "collect f (x # xs) =
     (case f x of
        Inl e \<Rightarrow> Inl e
      | Inr ys \<Rightarrow> (case collect f xs of Inl e \<Rightarrow> Inl e | Inr zs \<Rightarrow> Inr (ys @ zs)))"

text \<open>
  \<open>diff\<close> (lines 145-223), with the text decoding of the platform as its first argument.
  The three sets are iterated in the order of the listing they come from.
\<close>

definition diff :: "decoder \<Rightarrow> string \<Rightarrow> string \<Rightarrow> fs \<Rightarrow> error + Patch" where
  "diff dec old_dir new_dir s =
     (case scan_dir s old_dir of
        Inl e \<Rightarrow> Inl e
      | Inr old_scan \<Rightarrow>
     (case scan_dir s new_dir of
        Inl e \<Rightarrow> Inl e
      | Inr new_scan \<Rightarrow>
     (let old_files = snd old_scan; new_files = snd new_scan;
          deleted = filter (\<lambda>f. f \<notin> set new_files) (remdups old_files);
          extra = filter (\<lambda>f. f \<notin> set old_files) (remdups new_files);
          common = filter (\<lambda>f. f \<in> set new_files) (remdups old_files)
      in case collect (extra_ops dec (roots s new_dir)) extra of
           Inl e \<Rightarrow> Inl e
         | Inr ex \<Rightarrow>
        (case collect (common_ops dec (roots s old_dir) (roots s new_dir)) common of
           Inl e \<Rightarrow> Inl e
         | Inr cm \<Rightarrow>
             Inr \<lparr>old_dirs = fst old_scan, new_dirs = fst new_scan,
                  deleted_files = deleted, extra_files = extra,
                  operations = map (Operation_init DELETE 0 0 []) deleted @ ex @ cm\<rparr>))))"

section \<open>apply_patch\<close>

text \<open>A procedure on the file system returns the exception it raised, if any, and the state
  it leaves.\<close>

type_synonym proc = "fs \<Rightarrow> error option \<times> fs"

definition seq :: "proc \<Rightarrow> proc \<Rightarrow> proc" where
  "seq f g s = (case f s of (None, s') \<Rightarrow> g s' | (Some e, s') \<Rightarrow> (Some e, s'))"

fun for_each :: "('a \<Rightarrow> proc) \<Rightarrow> 'a list \<Rightarrow> proc" where
  "for_each body [] s = (None, s)"
| "for_each body (x # xs) s =
     (case body x s of (None, s') \<Rightarrow> for_each body xs s' | (Some e, s') \<Rightarrow> (Some e, s'))"

definition mkdtemp :: "fs \<Rightarrow> fs" where
  "mkdtemp s = s\<lparr>staging := Some []\<rparr>"

text \<open>\<open>os.makedirs(os.path.join(staging_dir, name), exist_ok=True)\<close>.\<close>

definition makedirs :: "string \<Rightarrow> proc" where
  "makedirs name s =
     (let es = (case staging s of None \<Rightarrow> [] | Some es \<Rightarrow> es) in
      case map_of es name of
        None \<Rightarrow> (None, s\<lparr>staging := Some (es @ [(name, Dir [])])\<rparr>)
      | Some n \<Rightarrow> if is_dir n then (None, s\<lparr>staging := Some es\<rparr>) else (Some FileExistsError, s))"

definition create_missing_dirs :: "Patch \<Rightarrow> proc" where
  "create_missing_dirs patch = for_each makedirs (new_dirs patch)"

text \<open>
  \<open>open(os.path.join(staging_dir, name), 'wb')\<close> and \<open>f.write(d)\<close>: the file is created or
  truncated, never appended to.
\<close>

definition write_wb :: "string \<Rightarrow> bytes \<Rightarrow> proc" where
  "write_wb name d s =
     (case staging s of
        None \<Rightarrow> (Some FileNotFoundError, s)
      | Some es \<Rightarrow>
         (case map_of es name of
            None \<Rightarrow> (None, s\<lparr>staging := Some (AList.update name (File d) es)\<rparr>)
          | Some (File _) \<Rightarrow> (None, s\<lparr>staging := Some (AList.update name (File d) es)\<rparr>)
          | Some (Dir _) \<Rightarrow> (Some IsADirectoryError, s)
          | Some (Symlink t ToDir) \<Rightarrow> (Some IsADirectoryError, s)
          | Some (Symlink t ToOther) \<Rightarrow> (Some OSError, s)
          | Some (Symlink t _) \<Rightarrow>
              (None, s\<lparr>staging := Some (AList.update name (Symlink t (ToFile d)) es)\<rparr>)
          | Some Other \<Rightarrow> (Some OSError, s)))"

text \<open>
  \<open>old_file.seek(offset)\<close> and \<open>old_file.read(n)\<close> on a file opened \<open>'rb'\<close>: a negative
  offset and a length below \<open>-1\<close> raise, the length \<open>-1\<close> reads to the end, and a read
  past the end returns what is there, without any error.
\<close>

definition seek_read :: "bytes \<Rightarrow> int \<Rightarrow> int \<Rightarrow> error + bytes" where
  "seek_read c offset n =
     (if offset < 0 then Inl OSError
      else if n < - 1 then Inl ValueError
      else if n = - 1 then Inr (drop (nat offset) c)
      else Inr (take (nat n) (drop (nat offset) c)))"

text \<open>
  The body of the loop over \<open>patch.operations\<close> (lines 259-274, the same as lines 64-79 of
  \<open>apply_operations\<close>): only the kinds \<open>DATA\<close> and \<open>BLOCK_RANGE\<close> have a branch.
\<close>

definition apply_operation :: "string \<Rightarrow> Operation \<Rightarrow> proc" where
  "apply_operation old_dir operation s =
     (if op_type operation = DATA then
        write_wb (target_path operation) (data operation) s
      else if op_type operation = BLOCK_RANGE then
        (case open_rb (roots s old_dir) (target_path operation) of
           Inl e \<Rightarrow> (Some e, s)
         | Inr c \<Rightarrow>
            (case seek_read c (block_index operation * int BLOCK_SIZE)
                    (block_span operation * int BLOCK_SIZE) of
               Inl e \<Rightarrow> (Some e, s)
             | Inr d \<Rightarrow> write_wb (target_path operation) d s))
      else (None, s))"

definition apply_operations :: "Patch \<Rightarrow> string \<Rightarrow> proc" where
  "apply_operations patch old_dir = for_each (apply_operation old_dir) (operations patch)"

text \<open>\<open>os.remove\<close> and \<open>os.rmdir\<close> of an entry of a root, and \<open>shutil.rmtree\<close> of a root.\<close>

definition os_remove :: "string \<Rightarrow> string \<Rightarrow> proc" where
  "os_remove dir name s =
     (case roots s dir of
        None \<Rightarrow> (Some FileNotFoundError, s)
      | Some es \<Rightarrow>
         (case map_of es name of
            None \<Rightarrow> (Some FileNotFoundError, s)
          | Some (Dir _) \<Rightarrow> (Some IsADirectoryError, s)
          | Some _ \<Rightarrow>
              (None, s\<lparr>roots := (roots s)(dir \<mapsto> AList.delete name es),
                        log := log s @ [Remove dir name]\<rparr>)))"

definition os_rmdir :: "string \<Rightarrow> string \<Rightarrow> proc" where
  "os_rmdir dir name s =
     (case roots s dir of
        None \<Rightarrow> (Some FileNotFoundError, s)
      | Some es \<Rightarrow>
         (case map_of es name of
            None \<Rightarrow> (Some FileNotFoundError, s)
          | Some (Dir []) \<Rightarrow>
              (None, s\<lparr>roots := (roots s)(dir \<mapsto> AList.delete name es),
                        log := log s @ [Rmdir dir name]\<rparr>)
          | Some _ \<Rightarrow> (Some OSError, s)))"

definition rmtree :: "string \<Rightarrow> proc" where
  "rmtree dir s =
     (case roots s dir of
        None \<Rightarrow> (Some FileNotFoundError, s)
      | Some es \<Rightarrow> (None, s\<lparr>roots := (roots s)(dir := None), log := log s @ [Rmtree dir]\<rparr>))"

text \<open>
  \<open>shutil.move(staging_dir, dir)\<close>: the staging directory becomes \<open>dir\<close> when nothing is
  there; into a directory that exists it would be moved as a new entry, under the name
  \<open>mkdtemp\<close> gave it, which the model fixes.
\<close>

definition staging_basename :: string where
  "staging_basename = ''tmp''"

definition move :: "string \<Rightarrow> proc" where
  "move dir s =
     (case staging s of
        None \<Rightarrow> (Some FileNotFoundError, s)
      | Some st \<Rightarrow>
         (case roots s dir of
            None \<Rightarrow>
              (None, s\<lparr>roots := (roots s)(dir \<mapsto> st), staging := None,
                        log := log s @ [Move dir]\<rparr>)
          | Some es \<Rightarrow>
              (None, s\<lparr>roots := (roots s)(dir \<mapsto> es @ [(staging_basename, Dir st)]),
                        staging := None, log := log s @ [Move dir]\<rparr>)))"

text \<open>The body of the loop of \<open>delete_extra_files\<close> (lines 85-89).\<close>

definition delete_extra_file :: "string \<Rightarrow> string \<Rightarrow> proc" where
  "delete_extra_file new_dir file s =
     (if isfile (roots s new_dir) file \<or> islink (roots s new_dir) file then os_remove new_dir file s
      else if isdir (roots s new_dir) file then os_rmdir new_dir file s
      else (None, s))"

definition delete_extra_files :: "Patch \<Rightarrow> string \<Rightarrow> proc" where
  "delete_extra_files patch new_dir = for_each (delete_extra_file new_dir) (extra_files patch)"

text \<open>
  \<open>apply_patch\<close> (lines 247-279). \<open>stage\<close> is its first part, up to the end of the loop over
  the operations (line 274).
\<close>

definition stage :: "Patch \<Rightarrow> string \<Rightarrow> proc" where
  "stage patch old_dir s =
     seq (create_missing_dirs patch) (apply_operations patch old_dir) (mkdtemp s)"

definition apply_patch :: "Patch \<Rightarrow> string \<Rightarrow> string \<Rightarrow> proc" where
  "apply_patch patch old_dir new_dir =
     seq (stage patch old_dir)
       (seq (delete_extra_files patch new_dir) (seq (rmtree new_dir) (move new_dir)))"


subsection \<open>Predicates of the statements\<close>

text \<open>
  A name is an entry name when it is one path component: not empty, not \<open>.\<close> or \<open>..\<close>,
  and without a separator. A patch is flat when its directories, its extra paths and the
  target paths of the operations that are applied are entry names, as in every patch that
  \<open>diff\<close> returns; the model reads paths as entry names of a root.
\<close>

definition entry_name :: "string \<Rightarrow> bool" where
  "entry_name n = (n \<noteq> [] \<and> n \<noteq> ''.'' \<and> n \<noteq> ''..'' \<and> CHR ''/'' \<notin> set n \<and> CHR 0x5C \<notin> set n)"

definition flat_patch :: "Patch \<Rightarrow> bool" where
  "flat_patch p =
     (list_all entry_name (new_dirs p) \<and> list_all entry_name (extra_files p) \<and>
      list_all (\<lambda>x. op_type x = SYMLINK \<or> op_type x = DELETE \<or> op_type x = MKDIR \<or>
                  entry_name (target_path x)) (operations p))"

text \<open>
  \<open>no_file_links\<close>: no entry of the directory is a symbolic link to a regular file.
\<close>

definition no_file_links :: "entries \<Rightarrow> bool" where
  "no_file_links es = list_all (\<lambda>e. \<not> (is_link (snd e) \<and> is_file (snd e))) es"

text \<open>
  \<open>text_reads_ok\<close>: the files that \<open>diff\<close> reads in text mode can be decoded. They are
  the entries of the new root that count as files and are symbolic links in the new root
  (lines 164-167, 184-187) or in the old one (lines 184-187).
\<close>

definition text_reads_ok :: "decoder \<Rightarrow> entries \<Rightarrow> entries \<Rightarrow> bool" where
  "text_reads_ok dec eo en =
     list_all (\<lambda>e. is_link (snd e) \<or> islink (Some eo) (fst e) \<longrightarrow>
                 (case node_content (snd e) of Inl _ \<Rightarrow> True | Inr c \<Rightarrow> dec c \<noteq> None)) en"

text \<open>
  What one listing of a directory shows of an entry, links followed: that it is a
  directory, or that it is a regular file, with the content read through it and whether
  the entry itself is a symbolic link; nothing for any other entry, and nothing of what a
  directory contains. \<open>listing\<close> is the list of the entries that show something.
\<close>

datatype seen = Seen_dir | Seen_file bool bytes

fun see :: "node \<Rightarrow> seen option" where
  "see (File c) = Some (Seen_file False c)"
| "see (Symlink _ (ToFile c)) = Some (Seen_file True c)"
| "see (Dir _) = Some Seen_dir"
| "see (Symlink _ ToDir) = Some Seen_dir"
| "see _ = None"

definition listing :: "entries \<Rightarrow> (string \<times> seen) list" where
  "listing es =
     map (\<lambda>e. (fst e, the (see (snd e)))) (filter (\<lambda>e. see (snd e) \<noteq> None) es)"



section \<open>Properties of the matcher and of the file loop\<close>

lemma chunk_short_eof:
  "length (take n (drop p c)) < n \<Longrightarrow> drop (p + length (take n (drop p c)) + k) c = []"
  by auto

lemma fnmb_loop_Some:
  "fnmb_loop oc nc h = (Some m, h') \<Longrightarrow>
     m = oc \<and> m \<noteq> [] \<and> fst h' = fst h \<and>
     (m = nc \<and> h' = h \<or>
      (\<exists>k. m = take BLOCK_SIZE (drop (snd h + k * BLOCK_SIZE) (fst h)) \<and>
           snd h' = snd h + k * BLOCK_SIZE + length m))"
proof (induction oc nc h rule: fnmb_loop.induct)
  case (1 oc nc h)
  show ?case
  proof (cases "nc \<noteq> [] \<and> oc \<noteq> nc")
    case False
    with "1.prems" show ?thesis
      by (subst (asm) fnmb_loop.simps) (auto split: if_splits)
  next
    case True
    let ?nc = "fst (file_read BLOCK_SIZE h)"
    let ?h1 = "snd (file_read BLOCK_SIZE h)"
    from True "1.prems" have run: "fnmb_loop oc ?nc ?h1 = (Some m, h')"
      by (subst (asm) fnmb_loop.simps) simp
    from True have c1: "nc \<noteq> []" and c2: "oc \<noteq> nc" by simp_all
    have ih: "m = oc \<and> m \<noteq> [] \<and> fst h' = fst ?h1 \<and>
       (m = ?nc \<and> h' = ?h1 \<or>
        (\<exists>k. m = take BLOCK_SIZE (drop (snd ?h1 + k * BLOCK_SIZE) (fst ?h1)) \<and>
           snd h' = snd ?h1 + k * BLOCK_SIZE + length m))"
      by (rule "1.IH" [OF c1 c2 run])
    have nc: "?nc = take BLOCK_SIZE (drop (snd h) (fst h))"
      and h1: "?h1 = (fst h, snd h + length ?nc)"
      by (simp_all add: file_read_def Let_def)
    from ih consider (now) "m = ?nc" "h' = ?h1"
      | (later) k where "m = take BLOCK_SIZE (drop (snd ?h1 + k * BLOCK_SIZE) (fst ?h1))"
          "snd h' = snd ?h1 + k * BLOCK_SIZE + length m" by blast
    then have ex: "\<exists>k. m = take BLOCK_SIZE (drop (snd h + k * BLOCK_SIZE) (fst h)) \<and>
           snd h' = snd h + k * BLOCK_SIZE + length m"
    proof cases
      case now
      then have "m = take BLOCK_SIZE (drop (snd h + 0 * BLOCK_SIZE) (fst h)) \<and>
           snd h' = snd h + 0 * BLOCK_SIZE + length m" using nc h1 by simp
      then show ?thesis by blast
    next
      case later
      have full: "length ?nc = BLOCK_SIZE"
      proof (rule ccontr)
        assume "length ?nc \<noteq> BLOCK_SIZE"
        then have "length (take BLOCK_SIZE (drop (snd h) (fst h))) < BLOCK_SIZE"
          using nc by simp
        then have "drop (snd h + length (take BLOCK_SIZE (drop (snd h) (fst h))) + k * BLOCK_SIZE) (fst h) = []"
          by (rule chunk_short_eof)
        with later(1) h1 nc have "m = []" by simp
        with ih show False by simp
      qed
      with later h1 have "m = take BLOCK_SIZE (drop (snd h + Suc k * BLOCK_SIZE) (fst h)) \<and>
           snd h' = snd h + Suc k * BLOCK_SIZE + length m"
        by (simp add: add.commute add.left_commute)
      then show ?thesis by blast
    qed
    from ih have m: "m = oc" "m \<noteq> []" and "fst h' = fst ?h1" by blast+
    with h1 have fh: "fst h' = fst h" by simp
    from m fh ex show ?thesis by blast
  qed
qed

lemma fnmb_loop_None:
  "fnmb_loop oc nc h = (None, h') \<Longrightarrow> nc \<noteq> oc \<or> nc = []"
  by (subst (asm) fnmb_loop.simps) (auto split: if_splits)


lemma diff_loop_end:
  "oc = [] \<or> nc = [] \<Longrightarrow>
     diff_loop f old new oc nc =
       (if oc = [] \<and> nc \<noteq> [] then [Operation_init DATA 0 0 nc f] else [])"
  by (subst diff_loop.simps) auto

lemma diff_loop_equal:
  "oc \<noteq> [] \<Longrightarrow>
     diff_loop f old new oc oc =
       diff_loop f (snd (file_read BLOCK_SIZE old)) (snd (file_read BLOCK_SIZE new))
         (fst (file_read BLOCK_SIZE old)) (fst (file_read BLOCK_SIZE new))"
  by (subst diff_loop.simps) simp

lemma diff_loop_nomatch:
  "oc \<noteq> [] \<Longrightarrow> nc \<noteq> [] \<Longrightarrow> oc \<noteq> nc \<Longrightarrow>
   \<not> truthy (fst (find_next_matching_block oc new)) \<Longrightarrow>
     diff_loop f old new oc nc = [Operation_init DATA 0 0 nc f]"
  by (subst diff_loop.simps) (simp add: Let_def)

lemma diff_loop_match:
  "oc \<noteq> [] \<Longrightarrow> nc \<noteq> [] \<Longrightarrow> oc \<noteq> nc \<Longrightarrow>
   truthy (fst (find_next_matching_block oc new)) \<Longrightarrow>
     diff_loop f old new oc nc =
       Operation_init BLOCK_RANGE
         (int (tell (snd (find_next_matching_block oc new))) div int BLOCK_SIZE - 1)
         (int (length (the (fst (find_next_matching_block oc new)))) div int BLOCK_SIZE)
         [] f #
       diff_loop f (snd (file_read BLOCK_SIZE old))
         (snd (file_read BLOCK_SIZE
           (snd (file_read BLOCK_SIZE (snd (find_next_matching_block oc new))))))
         (fst (file_read BLOCK_SIZE old))
         (fst (file_read BLOCK_SIZE
           (snd (file_read BLOCK_SIZE (snd (find_next_matching_block oc new))))))"
  by (subst diff_loop.simps) (simp add: Let_def)

lemma diff_loop_same_aux:
  "old = new \<Longrightarrow> oc = nc \<Longrightarrow> diff_loop f old new oc nc = []"
proof (induction f old new oc nc rule: diff_loop.induct)
  case (1 f old new oc nc)
  show ?case
  proof (cases "oc = []")
    case True
    with "1.prems" show ?thesis by (simp add: diff_loop_end)
  next
    case False
    with "1.prems" have c1: "oc \<noteq> [] \<and> nc \<noteq> []" and c2: "\<not> oc \<noteq> nc" by simp_all
    have "diff_loop f old new oc nc =
        diff_loop f (snd (file_read BLOCK_SIZE old)) (snd (file_read BLOCK_SIZE new))
          (fst (file_read BLOCK_SIZE old)) (fst (file_read BLOCK_SIZE new))"
      using c1 c2 diff_loop_equal [of oc f old new] by simp
    also have "\<dots> = []"
      using "1.prems" by (intro "1.IH"(2) [OF c1 c2]) simp_all
    finally show ?thesis .
  qed
qed

lemma diff_loop_same: "diff_loop f h h ch ch = []"
  by (rule diff_loop_same_aux) simp_all

lemma diff_loop_kinds:
  "x \<in> set (diff_loop f old new oc nc) \<Longrightarrow>
     target_path x = f \<and> (op_type x = DATA \<or> op_type x = BLOCK_RANGE)"
proof (induction f old new oc nc rule: diff_loop.induct)
  case (1 f old new oc nc)
  consider (fin) "oc = [] \<or> nc = []"
    | (eq) "oc \<noteq> []" "nc \<noteq> []" "oc = nc"
    | (nomatch) "oc \<noteq> []" "nc \<noteq> []" "oc \<noteq> nc"
        "\<not> truthy (fst (find_next_matching_block oc new))"
    | (match) "oc \<noteq> []" "nc \<noteq> []" "oc \<noteq> nc"
        "truthy (fst (find_next_matching_block oc new))"
    by blast
  then show ?case
  proof cases
    case fin
    with "1.prems" show ?thesis
      by (auto simp: diff_loop_end Operation_init_def split: if_splits)
  next
    case eq
    then have c1: "oc \<noteq> [] \<and> nc \<noteq> []" and c2: "\<not> oc \<noteq> nc" by simp_all
    from "1.prems" eq diff_loop_equal [of oc f old new]
    have "x \<in> set (diff_loop f (snd (file_read BLOCK_SIZE old)) (snd (file_read BLOCK_SIZE new))
          (fst (file_read BLOCK_SIZE old)) (fst (file_read BLOCK_SIZE new)))" by simp
    then show ?thesis by (rule "1.IH"(2) [OF c1 c2])
  next
    case nomatch
    with "1.prems" show ?thesis
      by (simp add: diff_loop_nomatch Operation_init_def)
  next
    case match
    then have c1: "oc \<noteq> [] \<and> nc \<noteq> []" by simp
    note ih = "1.IH"(1) [OF c1 match(3) refl refl refl match(4) refl refl refl]
    from "1.prems" match show ?thesis
      by (auto simp: diff_loop_match Operation_init_def dest: ih)
  qed
qed


section \<open>Properties of diff\<close>

lemma chunk_eq_prefix:
  fixes c1 c2 :: "'a list"
  assumes "take n c1 = take n c2" and "p + b \<le> n"
  shows "take b (drop p c1) = take b (drop p c2)"
proof -
  have "take b (drop p c) = take b (drop p (take n c))" for c :: "'a list"
    using assms(2) by (simp add: drop_take min_def)
  note h = this
  have "take b (drop p c1) = take b (drop p (take n c1))" by (rule h)
  also have "\<dots> = take b (drop p (take n c2))" by (simp only: assms(1))
  also have "\<dots> = take b (drop p c2)" by (rule h [symmetric])
  finally show ?thesis .
qed

lemma diff_loop_skip:
  assumes pre: "take n c1 = take n c2" and n1: "n \<le> length c1" and n2: "n \<le> length c2"
  shows "p + d * BLOCK_SIZE = n \<Longrightarrow>
     diff_loop f (c1, p + length (take BLOCK_SIZE (drop p c1)))
       (c2, p + length (take BLOCK_SIZE (drop p c2)))
       (take BLOCK_SIZE (drop p c1)) (take BLOCK_SIZE (drop p c2)) =
     diff_loop f (c1, n + length (take BLOCK_SIZE (drop n c1)))
       (c2, n + length (take BLOCK_SIZE (drop n c2)))
       (take BLOCK_SIZE (drop n c1)) (take BLOCK_SIZE (drop n c2))"
proof (induction d arbitrary: p)
  case 0
  then show ?case by simp
next
  case (Suc d)
  let ?B = BLOCK_SIZE
  from Suc.prems have le: "p + ?B \<le> n" by simp
  have eq: "take ?B (drop p c1) = take ?B (drop p c2)"
    by (rule chunk_eq_prefix [OF pre le])
  from le n1 have l1: "length (take ?B (drop p c1)) = ?B" by simp
  from le n2 have l2: "length (take ?B (drop p c2)) = ?B" by simp
  have pos: "0 < ?B" by (simp add: BLOCK_SIZE_def)
  with l1 have ne: "take ?B (drop p c1) \<noteq> []" by auto
  have "diff_loop f (c1, p + length (take ?B (drop p c1)))
       (c2, p + length (take ?B (drop p c2)))
       (take ?B (drop p c1)) (take ?B (drop p c2)) =
     diff_loop f (c1, (p + ?B) + length (take ?B (drop (p + ?B) c1)))
       (c2, (p + ?B) + length (take ?B (drop (p + ?B) c2)))
       (take ?B (drop (p + ?B) c1)) (take ?B (drop (p + ?B) c2))"
    unfolding eq [symmetric] l1 l2 [unfolded eq [symmetric]]
    by (subst diff_loop_equal [OF ne]) (simp add: file_read_def Let_def)
  also have "\<dots> = diff_loop f (c1, n + length (take ?B (drop n c1)))
       (c2, n + length (take ?B (drop n c2)))
       (take ?B (drop n c1)) (take ?B (drop n c2))"
    using Suc.prems by (intro Suc.IH) simp
  finally show ?case .
qed

lemma diff_loop_append:
  assumes "length c = k * BLOCK_SIZE" and "a \<noteq> []" and "length a \<le> BLOCK_SIZE"
  shows "diff_loop f (snd (file_read BLOCK_SIZE (file_open c)))
       (snd (file_read BLOCK_SIZE (file_open (c @ a))))
       (fst (file_read BLOCK_SIZE (file_open c)))
       (fst (file_read BLOCK_SIZE (file_open (c @ a)))) =
     [Operation_init DATA 0 0 a f]"
proof -
  let ?B = BLOCK_SIZE
  let ?n = "length c"
  have "diff_loop f (snd (file_read ?B (file_open c)))
       (snd (file_read ?B (file_open (c @ a))))
       (fst (file_read ?B (file_open c)))
       (fst (file_read ?B (file_open (c @ a)))) =
     diff_loop f (c, 0 + length (take ?B (drop 0 c)))
       (c @ a, 0 + length (take ?B (drop 0 (c @ a))))
       (take ?B (drop 0 c)) (take ?B (drop 0 (c @ a)))"
    by (simp add: file_read_def file_open_def Let_def)
  also have "\<dots> = diff_loop f (c, ?n + length (take ?B (drop ?n c)))
       (c @ a, ?n + length (take ?B (drop ?n (c @ a))))
       (take ?B (drop ?n c)) (take ?B (drop ?n (c @ a)))"
    by (rule diff_loop_skip [where d = k]) (simp_all add: assms)
  also have "\<dots> = diff_loop f (c, ?n) (c @ a, ?n + length a) [] a"
    using assms(3) by simp
  also have "\<dots> = [Operation_init DATA 0 0 a f]"
    using assms(2) by (simp add: diff_loop_end)
  finally show ?thesis .
qed


lemma files_of_lookup:
  assumes "distinct (map fst es)" and "f \<in> set (files_of es)"
  shows "\<exists>x. map_of es f = Some x \<and> is_file x \<and> \<not> is_dir x"
proof -
  from assms(2) obtain x where "(f, x) \<in> set es" "is_file x" "\<not> is_dir x"
    by (auto simp: files_of_def)
  with assms(1) show ?thesis by (auto dest: map_of_is_SomeI)
qed

lemma file_entry_listed:
  "map_of es f = Some x \<Longrightarrow> is_file x \<Longrightarrow> f \<in> set (files_of es)"
proof -
  assume a: "map_of es f = Some x" "is_file x"
  then have "(f, x) \<in> set es" by (auto dest: map_of_SomeD)
  moreover from a(2) have "\<not> is_dir x" by (cases x rule: is_file.cases) auto
  ultimately show ?thesis using a(2) by (force simp: files_of_def)
qed

lemma is_file_content: "is_file x \<Longrightarrow> \<exists>c. node_content x = Inr c"
  by (cases x rule: is_file.cases) auto

lemma is_file_regular: "is_file x \<Longrightarrow> \<not> is_link x \<Longrightarrow> \<exists>c. x = File c"
  by (cases x rule: is_file.cases) auto

lemma collect_Inr:
  "(\<And>x. x \<in> set xs \<Longrightarrow> \<exists>ys. F x = Inr ys) \<Longrightarrow>
     collect F xs = Inr (concat (map (\<lambda>x. projr (F x)) xs))"
proof (induction xs)
  case Nil
  show ?case by simp
next
  case (Cons x xs)
  from Cons.prems [of x] obtain ys where "F x = Inr ys" by auto
  moreover have "collect F xs = Inr (concat (map (\<lambda>x. projr (F x)) xs))"
    by (rule Cons.IH) (simp add: Cons.prems)
  ultimately show ?case by simp
qed

lemma collect_cong:
  "(\<And>x. x \<in> set xs \<Longrightarrow> F x = G x) \<Longrightarrow> collect F xs = collect G xs"
  by (induction xs) (simp_all split: sum.splits)

lemma concat_single:
  "distinct xs \<Longrightarrow> f \<in> set xs \<Longrightarrow> (\<And>g. g \<in> set xs \<Longrightarrow> g \<noteq> f \<Longrightarrow> H g = []) \<Longrightarrow>
     concat (map H xs) = H f"
proof (induction xs)
  case Nil
  then show ?case by simp
next
  case (Cons x xs)
  show ?case
  proof (cases "x = f")
    case True
    with Cons.prems(1) have "\<And>g. g \<in> set xs \<Longrightarrow> g \<noteq> f" by auto
    with Cons.prems(3) have "\<And>g. g \<in> set xs \<Longrightarrow> H g = []" by simp
    then have "concat (map H xs) = []" by simp
    with True show ?thesis by simp
  next
    case False
    with Cons.prems have "H x = []" "f \<in> set xs" "distinct xs" by auto
    moreover from this Cons have "concat (map H xs) = H f" by simp
    ultimately show ?thesis by simp
  qed
qed

lemma diff_on_dirs:
  assumes "roots s old_dir = Some eo" and "roots s new_dir = Some en"
  shows "diff dec old_dir new_dir s =
     (case collect (extra_ops dec (Some en))
             (filter (\<lambda>f. f \<notin> set (files_of eo)) (remdups (files_of en))) of
        Inl e \<Rightarrow> Inl e
      | Inr ex \<Rightarrow>
         (case collect (common_ops dec (Some eo) (Some en))
                 (filter (\<lambda>f. f \<in> set (files_of en)) (remdups (files_of eo))) of
            Inl e \<Rightarrow> Inl e
          | Inr cm \<Rightarrow>
              Inr \<lparr>old_dirs = dirs_of eo, new_dirs = dirs_of en,
                   deleted_files = filter (\<lambda>f. f \<notin> set (files_of en)) (remdups (files_of eo)),
                   extra_files = filter (\<lambda>f. f \<notin> set (files_of eo)) (remdups (files_of en)),
                   operations =
                     map (Operation_init DELETE 0 0 [])
                       (filter (\<lambda>f. f \<notin> set (files_of en)) (remdups (files_of eo))) @
                     ex @ cm\<rparr>))"
  by (simp add: diff_def scan_dir_def Let_def assms split: sum.splits)

lemma text_read_ok:
  assumes ok: "text_reads_ok dec eo en" and dist: "distinct (map fst en)"
    and y: "map_of en f = Some y" and c: "node_content y = Inr c"
    and link: "islink (Some eo) f \<or> islink (Some en) f"
  shows "\<exists>t. open_r dec (Some en) f = Inr t"
proof -
  from y have mem: "(f, y) \<in> set en" by (auto dest: map_of_SomeD)
  from link y have "is_link y \<or> islink (Some eo) f" by (auto simp: islink_def)
  with ok mem c have "dec c \<noteq> None"
    by (auto simp: text_reads_ok_def list_all_iff)
  with y c show ?thesis by (auto simp: open_r_def open_rb_def)
qed

lemma extra_ops_file:
  assumes "distinct (map fst en)" and "f \<in> set (files_of en)" and ok: "text_reads_ok dec eo en"
  shows "\<exists>ys. extra_ops dec (Some en) f = Inr ys \<and>
           (\<forall>x\<in>set ys. op_type x = SYMLINK \<or> target_path x = f)"
proof -
  from files_of_lookup [OF assms(1,2)] obtain y where
    y: "map_of en f = Some y" "is_file y" "\<not> is_dir y" by blast
  from is_file_content [OF y(2)] obtain c where c: "node_content y = Inr c" by blast
  show ?thesis
  proof (cases "islink (Some en) f")
    case True
    then have "islink (Some eo) f \<or> islink (Some en) f" by simp
    from text_read_ok [OF ok assms(1) y(1) c this] obtain t where
      "open_r dec (Some en) f = Inr t" by blast
    with True show ?thesis by (simp add: extra_ops_def Operation_init_def)
  next
    case False
    with y c show ?thesis
      by (simp add: extra_ops_def isdir_def open_rb_def Operation_init_def)
  qed
qed

lemma common_ops_file:
  assumes "distinct (map fst eo)" and "distinct (map fst en)"
    and "f \<in> set (files_of eo)" and "f \<in> set (files_of en)" and ok: "text_reads_ok dec eo en"
  shows "\<exists>ys. common_ops dec (Some eo) (Some en) f = Inr ys \<and>
           (\<forall>x\<in>set ys. op_type x = SYMLINK \<or> target_path x = f)"
proof -
  from files_of_lookup [OF assms(1,3)] obtain x where
    x: "map_of eo f = Some x" "is_file x" "\<not> is_dir x" by blast
  from files_of_lookup [OF assms(2,4)] obtain y where
    y: "map_of en f = Some y" "is_file y" "\<not> is_dir y" by blast
  from is_file_content [OF x(2)] obtain c where c: "node_content x = Inr c" by blast
  from is_file_content [OF y(2)] obtain d where d: "node_content y = Inr d" by blast
  show ?thesis
  proof (cases "islink (Some eo) f \<or> islink (Some en) f")
    case True
    from text_read_ok [OF ok assms(2) y(1) d this] obtain t where
      "open_r dec (Some en) f = Inr t" by blast
    with True show ?thesis by (simp add: common_ops_def Operation_init_def)
  next
    case False
    with x y c d show ?thesis
      by (auto simp: common_ops_def isdir_def open_rb_def dest: diff_loop_kinds)
  qed
qed

lemma common_ops_regular:
  assumes "map_of eo f = Some (File c)" and "map_of en f = Some (File d)"
  shows "common_ops dec (Some eo) (Some en) f =
     Inr (diff_loop f (snd (file_read BLOCK_SIZE (file_open c)))
            (snd (file_read BLOCK_SIZE (file_open d)))
            (fst (file_read BLOCK_SIZE (file_open c)))
            (fst (file_read BLOCK_SIZE (file_open d))))"
  using assms by (simp add: common_ops_def islink_def isdir_def open_rb_def)

lemma collect_Nil:
  "(\<And>x. x \<in> set xs \<Longrightarrow> F x = Inr []) \<Longrightarrow> collect F xs = Inr []"
  by (induction xs) simp_all

lemma see_eq:
  "see x = see y \<Longrightarrow> is_file x \<Longrightarrow>
     is_link x = is_link y \<and> is_dir x = is_dir y \<and> node_content x = node_content y"
  by (cases x rule: see.cases; cases y rule: see.cases; simp)

lemma listing_Cons:
  "listing ((k, x) # es) = (case see x of None \<Rightarrow> listing es | Some v \<Rightarrow> (k, v) # listing es)"
  by (auto simp: listing_def)

lemma dirs_of_Cons:
  "dirs_of ((k, x) # es) = (if is_dir x then k # dirs_of es else dirs_of es)"
  by (simp add: dirs_of_def)

lemma files_of_Cons:
  "files_of ((k, x) # es) =
     (if \<not> is_dir x \<and> is_file x then k # files_of es else files_of es)"
  by (simp add: files_of_def)

lemma dirs_of_listing:
  "dirs_of es = map fst (filter (\<lambda>v. snd v = Seen_dir) (listing es))"
proof (induction es)
  case Nil
  show ?case by (simp add: dirs_of_def listing_def)
next
  case (Cons e es)
  obtain k x where e: "e = (k, x)" by (cases e)
  show ?case unfolding e
    by (cases x rule: see.cases) (simp_all add: listing_Cons dirs_of_Cons Cons.IH)
qed

lemma files_of_listing:
  "files_of es = map fst (filter (\<lambda>v. snd v \<noteq> Seen_dir) (listing es))"
proof (induction es)
  case Nil
  show ?case by (simp add: files_of_def listing_def)
next
  case (Cons e es)
  obtain k x where e: "e = (k, x)" by (cases e)
  show ?case unfolding e
    by (cases x rule: see.cases) (simp_all add: listing_Cons files_of_Cons Cons.IH)
qed

lemma listing_names: "fst ` set (listing es) \<subseteq> fst ` set es"
  by (force simp: listing_def)

lemma map_of_listing:
  "distinct (map fst es) \<Longrightarrow>
     map_of (listing es) g = (case map_of es g of None \<Rightarrow> None | Some x \<Rightarrow> see x)"
proof (induction es)
  case Nil
  show ?case by (simp add: listing_def)
next
  case (Cons e es)
  obtain k x where e: "e = (k, x)" by (cases e)
  from Cons.prems e have fresh: "k \<notin> fst ` set es" and dist: "distinct (map fst es)" by auto
  note ih = Cons.IH [OF dist]
  have tl: "listing (e # es) = (if see x = None then listing es else (k, the (see x)) # listing es)"
    by (auto simp: listing_Cons e)
  show ?case
  proof (cases "g = k")
    case False
    with ih tl e show ?thesis by simp
  next
    case True
    from fresh listing_names [of es] have "k \<notin> fst ` set (listing es)" by blast
    then have "map_of (listing es) k = None" by (simp add: map_of_eq_None_iff)
    with True tl e show ?thesis by auto
  qed
qed

lemma listing_lookup:
  assumes d1: "distinct (map fst e1)" and d2: "distinct (map fst e2)"
    and eq: "listing e1 = listing e2" and g: "g \<in> set (files_of e1)"
  shows "islink (Some e1) g = islink (Some e2) g" and "isdir (Some e1) g = isdir (Some e2) g"
    and "open_rb (Some e1) g = open_rb (Some e2) g"
    and "open_r dec (Some e1) g = open_r dec (Some e2) g"
proof -
  from files_of_lookup [OF d1 g] obtain x where
    x: "map_of e1 g = Some x" "is_file x" by blast
  from x(2) have sx: "see x \<noteq> None" by (cases x rule: see.cases) auto
  from map_of_listing [OF d1, of g] x have "map_of (listing e1) g = see x" by simp
  with eq map_of_listing [OF d2, of g] have
    "(case map_of e2 g of None \<Rightarrow> None | Some y \<Rightarrow> see y) = see x" by simp
  with sx obtain y where y: "map_of e2 g = Some y" "see y = see x"
    by (cases "map_of e2 g") auto
  from see_eq [OF y(2) [symmetric] x(2)] have
    k: "is_link x = is_link y" "is_dir x = is_dir y" "node_content x = node_content y"
    by simp_all
  from x y k show "islink (Some e1) g = islink (Some e2) g"
    and "isdir (Some e1) g = isdir (Some e2) g"
    and rb: "open_rb (Some e1) g = open_rb (Some e2) g"
    by (simp_all add: islink_def isdir_def open_rb_def)
  from rb show "open_r dec (Some e1) g = open_r dec (Some e2) g" by (simp add: open_r_def)
qed

section \<open>Properties of apply_patch\<close>

lemma for_each_live:
  assumes run: "for_each body xs s = (r, s')"
    and step: "\<And>x s r s'. body x s = (r, s') \<Longrightarrow> roots s' = roots s \<and> log s' = log s"
  shows "roots s' = roots s \<and> log s' = log s"
  using run
proof (induction xs arbitrary: s)
  case Nil
  then show ?case by simp
next
  case (Cons x xs)
  obtain r1 s1 where b: "body x s = (r1, s1)" by (cases "body x s")
  from step [OF b] have f1: "roots s1 = roots s \<and> log s1 = log s" .
  show ?case
  proof (cases r1)
    case None
    with Cons.prems b have "for_each body xs s1 = (r, s')" by simp
    from Cons.IH [OF this] f1 show ?thesis by simp
  next
    case (Some e)
    with Cons.prems b have "s' = s1" by simp
    with f1 show ?thesis by simp
  qed
qed

lemma write_wb_live:
  "write_wb name d s = (r, s') \<Longrightarrow> roots s' = roots s \<and> log s' = log s"
  by (auto simp: write_wb_def split: option.splits node.splits link_dest.splits)

lemma makedirs_live:
  "makedirs name s = (r, s') \<Longrightarrow> roots s' = roots s \<and> log s' = log s"
  by (auto simp: makedirs_def Let_def split: option.splits if_splits)

lemma apply_operation_live:
  "apply_operation old_dir x s = (r, s') \<Longrightarrow> roots s' = roots s \<and> log s' = log s"
  by (auto simp: apply_operation_def split: if_splits sum.splits dest: write_wb_live)

lemma stage_live:
  assumes "stage p old_dir s = (r, s')"
  shows "roots s' = roots s \<and> log s' = log s"
proof -
  obtain r1 s1 where c: "create_missing_dirs p (mkdtemp s) = (r1, s1)"
    by (cases "create_missing_dirs p (mkdtemp s)")
  have m: "roots (mkdtemp s) = roots s \<and> log (mkdtemp s) = log s"
    by (simp add: mkdtemp_def)
  from c have c1: "roots s1 = roots (mkdtemp s) \<and> log s1 = log (mkdtemp s)"
    unfolding create_missing_dirs_def by (rule for_each_live) (rule makedirs_live)
  show ?thesis
  proof (cases r1)
    case (Some e)
    with assms c have "s' = s1" by (simp add: stage_def seq_def)
    with c1 m show ?thesis by simp
  next
    case None
    with assms c have a: "apply_operations p old_dir s1 = (r, s')"
      by (simp add: stage_def seq_def)
    then have "roots s' = roots s1 \<and> log s' = log s1"
      unfolding apply_operations_def by (rule for_each_live) (rule apply_operation_live)
    with c1 m show ?thesis by simp
  qed
qed














section \<open>The claims\<close>

subsection \<open>C5: shift detection\<close>

text \<open>
  Counterexample to C5. The new file is the old one with the byte \<open>X\<close> put in front. The
  patch holds one \<open>DATA\<close> operation with the first block of the new file and no
  \<open>BLOCK_RANGE\<close> operation at all.
\<close>

theorem prepend_byte_counterexample:
  "diff decode_ascii ''old'' ''new''
     \<lparr>roots = map_of [(''old'', [(''a'', File ''ABCDEFGHIJKLMNOP'')]),
                       (''new'', [(''a'', File ''XABCDEFGHIJKLMNOP'')])],
      staging = None, log = []\<rparr>
   = Inr \<lparr>old_dirs = [], new_dirs = [], deleted_files = [], extra_files = [],
          operations = [Operation_init DATA 0 0 ''XABCDEFG'' ''a'']\<rparr>"
  by code_simp

text \<open>
  C5, amended: \<open>find_next_matching_block\<close>, called with the new file at position \<open>p\<close>,
  returns a match only for a block of the new file that starts a whole number of blocks
  after \<open>p\<close>, that is at \<open>p + k * BLOCK_SIZE\<close>: the block there equals \<open>old_chunk\<close>, and
  the file is left just behind it. No other offset of the new file is looked at.
\<close>

theorem find_next_matching_block_aligned:
  assumes "find_next_matching_block old_chunk (c, p) = (Some m, h')"
  shows "\<exists>k. m = old_chunk \<and> m \<noteq> [] \<and>
           m = take BLOCK_SIZE (drop (p + k * BLOCK_SIZE) c) \<and>
           h' = (c, p + k * BLOCK_SIZE + length m)"
proof -
  define nc where "nc = take BLOCK_SIZE (drop p c)"
  define h where "h = (c, p + length nc)"
  from assms have run: "fnmb_loop old_chunk nc h = (Some m, h')"
    by (simp add: find_next_matching_block_def file_read_def Let_def nc_def h_def)
  note r = fnmb_loop_Some [OF run]
  from r have m: "m = old_chunk" "m \<noteq> []" by blast+
  from r have "fst h' = fst h" by blast
  then have fh: "fst h' = c" by (simp add: h_def)
  from r have "m = nc \<and> h' = h \<or>
      (\<exists>k. m = take BLOCK_SIZE (drop (snd h + k * BLOCK_SIZE) (fst h)) \<and>
           snd h' = snd h + k * BLOCK_SIZE + length m)" by blast
  then have alt: "m = nc \<and> h' = h \<or>
      (\<exists>k. m = take BLOCK_SIZE (drop (p + length nc + k * BLOCK_SIZE) c) \<and>
           snd h' = p + length nc + k * BLOCK_SIZE + length m)"
    unfolding h_def by simp
  from alt have "\<exists>k. m = take BLOCK_SIZE (drop (p + k * BLOCK_SIZE) c) \<and>
           snd h' = p + k * BLOCK_SIZE + length m"
  proof
    assume "m = nc \<and> h' = h"
    then have "m = take BLOCK_SIZE (drop (p + 0 * BLOCK_SIZE) c) \<and>
           snd h' = p + 0 * BLOCK_SIZE + length m" by (simp add: nc_def h_def)
    then show ?thesis by blast
  next
    assume "\<exists>k. m = take BLOCK_SIZE (drop (p + length nc + k * BLOCK_SIZE) c) \<and>
           snd h' = p + length nc + k * BLOCK_SIZE + length m"
    then obtain k where k: "m = take BLOCK_SIZE (drop (p + length nc + k * BLOCK_SIZE) c)"
      "snd h' = p + length nc + k * BLOCK_SIZE + length m" by blast
    have full: "length nc = BLOCK_SIZE"
    proof (rule ccontr)
      assume "length nc \<noteq> BLOCK_SIZE"
      then have "length (take BLOCK_SIZE (drop p c)) < BLOCK_SIZE" by (simp add: nc_def)
      then have "drop (p + length (take BLOCK_SIZE (drop p c)) + k * BLOCK_SIZE) c = []"
        by (rule chunk_short_eof)
      with k(1) m show False by (simp add: nc_def)
    qed
    then have e: "p + length nc + k * BLOCK_SIZE = p + Suc k * BLOCK_SIZE" by simp
    from k have "m = take BLOCK_SIZE (drop (p + Suc k * BLOCK_SIZE) c) \<and>
           snd h' = p + Suc k * BLOCK_SIZE + length m"
      unfolding e by blast
    then show ?thesis by blast
  qed
  then obtain k where k: "m = take BLOCK_SIZE (drop (p + k * BLOCK_SIZE) c)"
    "snd h' = p + k * BLOCK_SIZE + length m" by blast
  from k(2) fh have "h' = (c, p + k * BLOCK_SIZE + length m)"
    by (cases h') simp
  with k(1) m show ?thesis by blast
qed


theorem find_next_matching_block_aligned_witness:
  "find_next_matching_block ''AAAAAAAA'' (''BBBBBBBBCCCCCCCCAAAAAAAA'', 8) =
     (Some ''AAAAAAAA'', (''BBBBBBBBCCCCCCCCAAAAAAAA'', 24)) \<and>
   (\<exists>k. ''AAAAAAAA'' = take BLOCK_SIZE (drop (8 + k * BLOCK_SIZE) ''BBBBBBBBCCCCCCCCAAAAAAAA'') \<and>
        (''BBBBBBBBCCCCCCCCAAAAAAAA'', 24 :: nat) =
          (''BBBBBBBBCCCCCCCCAAAAAAAA'', 8 + k * BLOCK_SIZE + length ''AAAAAAAA''))"
proof -
  have run: "find_next_matching_block ''AAAAAAAA'' (''BBBBBBBBCCCCCCCCAAAAAAAA'', 8) =
     (Some ''AAAAAAAA'', (''BBBBBBBBCCCCCCCCAAAAAAAA'', 24))"
    by code_simp
  from find_next_matching_block_aligned [OF run] run show ?thesis by blast
qed

subsection \<open>C4: the operations of one file\<close>

text \<open>
  C4 at a failing input. The old file is \<open>A\<close>, the new one has two blocks and no block in
  common with it. The only operation emitted carries the first block; the second block of
  the new file is in no operation, so the outputs of the operations, put one after the
  other, are not the new file.
\<close>

theorem diff_emits_only_first_block:
  "diff decode_ascii ''old'' ''new''
     \<lparr>roots = map_of [(''old'', [(''a'', File ''A'')]),
                       (''new'', [(''a'', File ''BBBBBBBBCCCCCCCC'')])],
      staging = None, log = []\<rparr>
   = Inr \<lparr>old_dirs = [], new_dirs = [], deleted_files = [], extra_files = [],
          operations = [Operation_init DATA 0 0 ''BBBBBBBB'' ''a'']\<rparr>"
  by code_simp

subsection \<open>C1: round trip\<close>

text \<open>
  C1 at a failing input: the trees of the theorem above. The patch that \<open>diff\<close> returns
  for them, applied to the old tree with the old tree as target, runs without error and
  leaves the file \<open>a\<close> with the first block of the new file only.
\<close>

theorem round_trip_loses_second_block:
  "fst (apply_patch
     \<lparr>old_dirs = [], new_dirs = [], deleted_files = [], extra_files = [],
      operations = [Operation_init DATA 0 0 ''BBBBBBBB'' ''a'']\<rparr> ''old'' ''old''
     \<lparr>roots = map_of [(''old'', [(''a'', File ''A'')]),
                       (''new'', [(''a'', File ''BBBBBBBBCCCCCCCC'')])],
      staging = None, log = []\<rparr>) = None \<and>
   roots (snd (apply_patch
     \<lparr>old_dirs = [], new_dirs = [], deleted_files = [], extra_files = [],
      operations = [Operation_init DATA 0 0 ''BBBBBBBB'' ''a'']\<rparr> ''old'' ''old''
     \<lparr>roots = map_of [(''old'', [(''a'', File ''A'')]),
                       (''new'', [(''a'', File ''BBBBBBBBCCCCCCCC'')])],
      staging = None, log = []\<rparr>)) ''old'' = Some [(''a'', File ''BBBBBBBB'')]"
  by code_simp

subsection \<open>C2: errors while applying\<close>

text \<open>
  Counterexample to C2. The extra paths \<open>c\<close> and \<open>d\<close> of the patch exist in the live
  target \<open>t\<close>, \<open>c\<close> as a file and \<open>d\<close> as a directory that is not empty. The operations
  are staged without error; \<open>delete_extra_files\<close> then removes \<open>c\<close> from the live target
  and fails on \<open>d\<close>. The run ends with an error, nothing is published, and the live
  target has lost \<open>c\<close>.
\<close>

theorem target_mutated_then_error:
  "fst (stage
       \<lparr>old_dirs = [], new_dirs = [], deleted_files = [], extra_files = [''c'', ''d''],
        operations = [Operation_init DATA 0 0 ''x'' ''c'', Operation_init DATA 0 0 ''y'' ''d'']\<rparr>
       ''old''
       \<lparr>roots = map_of [(''old'', []),
          (''t'', [(''c'', File ''1''), (''d'', Dir [(''k'', File ''2'')])])],
         staging = None, log = []\<rparr>) = None \<and>
   fst (apply_patch
       \<lparr>old_dirs = [], new_dirs = [], deleted_files = [], extra_files = [''c'', ''d''],
        operations = [Operation_init DATA 0 0 ''x'' ''c'', Operation_init DATA 0 0 ''y'' ''d'']\<rparr>
       ''old'' ''t''
       \<lparr>roots = map_of [(''old'', []),
          (''t'', [(''c'', File ''1''), (''d'', Dir [(''k'', File ''2'')])])],
         staging = None, log = []\<rparr>) = Some OSError \<and>
   roots (snd (apply_patch
       \<lparr>old_dirs = [], new_dirs = [], deleted_files = [], extra_files = [''c'', ''d''],
        operations = [Operation_init DATA 0 0 ''x'' ''c'', Operation_init DATA 0 0 ''y'' ''d'']\<rparr>
       ''old'' ''t''
       \<lparr>roots = map_of [(''old'', []),
          (''t'', [(''c'', File ''1''), (''d'', Dir [(''k'', File ''2'')])])],
         staging = None, log = []\<rparr>)) ''t'' = Some [(''d'', Dir [(''k'', File ''2'')])] \<and>
   log (snd (apply_patch
       \<lparr>old_dirs = [], new_dirs = [], deleted_files = [], extra_files = [''c'', ''d''],
        operations = [Operation_init DATA 0 0 ''x'' ''c'', Operation_init DATA 0 0 ''y'' ''d'']\<rparr>
       ''old'' ''t''
       \<lparr>roots = map_of [(''old'', []),
          (''t'', [(''c'', File ''1''), (''d'', Dir [(''k'', File ''2'')])])],
         staging = None, log = []\<rparr>)) = [Remove ''t'' ''c'']"
  by code_simp

text \<open>
  C2, amended: for a patch whose paths are entry names, an error raised while the
  directories are created in the staging directory or while an operation is applied ends
  \<open>apply_patch\<close> with that error at once: nothing is published, and the named roots, the
  live target among them, and the log of their mutations are as before the call. (Once
  staging has succeeded the code removes the extra paths from the live target and then the
  whole target, before the staged tree is moved in.)
\<close>

theorem stage_error_leaves_target:
  assumes "flat_patch p" and "stage p old_dir s = (Some e, s1)"
  shows "apply_patch p old_dir new_dir s = (Some e, s1) \<and> roots s1 = roots s \<and> log s1 = log s"
  using assms(2) stage_live [OF assms(2)] by (simp add: apply_patch_def seq_def)

theorem stage_error_leaves_target_witness:
  "flat_patch
       \<lparr>old_dirs = [], new_dirs = [], deleted_files = [], extra_files = [''b''],
        operations = [Operation_init DATA 0 0 ''x'' ''b'',
                      Operation_init BLOCK_RANGE 0 1 [] ''a'']\<rparr> \<and>
   fst (apply_patch
       \<lparr>old_dirs = [], new_dirs = [], deleted_files = [], extra_files = [''b''],
        operations = [Operation_init DATA 0 0 ''x'' ''b'',
                      Operation_init BLOCK_RANGE 0 1 [] ''a'']\<rparr>
       ''old'' ''t''
       \<lparr>roots = map_of [(''old'', []), (''t'', [(''b'', File ''keep'')])],
         staging = None, log = []\<rparr>) = Some FileNotFoundError \<and>
   roots (snd (apply_patch
       \<lparr>old_dirs = [], new_dirs = [], deleted_files = [], extra_files = [''b''],
        operations = [Operation_init DATA 0 0 ''x'' ''b'',
                      Operation_init BLOCK_RANGE 0 1 [] ''a'']\<rparr>
       ''old'' ''t''
       \<lparr>roots = map_of [(''old'', []), (''t'', [(''b'', File ''keep'')])],
         staging = None, log = []\<rparr>)) ''t'' = Some [(''b'', File ''keep'')] \<and>
   log (snd (apply_patch
       \<lparr>old_dirs = [], new_dirs = [], deleted_files = [], extra_files = [''b''],
        operations = [Operation_init DATA 0 0 ''x'' ''b'',
                      Operation_init BLOCK_RANGE 0 1 [] ''a'']\<rparr>
       ''old'' ''t''
       \<lparr>roots = map_of [(''old'', []), (''t'', [(''b'', File ''keep'')])],
         staging = None, log = []\<rparr>)) = []"
proof -
  let ?p = "\<lparr>old_dirs = [], new_dirs = [], deleted_files = [], extra_files = [''b''],
        operations = [Operation_init DATA 0 0 ''x'' ''b'',
                      Operation_init BLOCK_RANGE 0 1 [] ''a'']\<rparr>"
  let ?s = "\<lparr>roots = map_of [(''old'', []), (''t'', [(''b'', File ''keep'')])],
         staging = None, log = []\<rparr>"
  have flat: "flat_patch ?p" by code_simp
  have "fst (stage ?p ''old'' ?s) = Some FileNotFoundError" by code_simp
  then have run: "stage ?p ''old'' ?s = (Some FileNotFoundError, snd (stage ?p ''old'' ?s))"
    by (simp add: prod_eq_iff)
  have "roots ?s ''t'' = Some [(''b'', File ''keep'')]" "log ?s = []" by simp_all
  with stage_error_leaves_target [OF flat run, of "''t''"] flat show ?thesis by simp
qed

subsection \<open>C3: short reads\<close>

text \<open>
  Counterexample to C3. The patch is the one \<open>diff\<close> returns for the old file
  \<open>AAAAAAAAXXXXXXXX\<close> and the new file \<open>BBBBBBBBAAAAAAAA\<close>: one \<open>BLOCK_RANGE\<close> operation
  for block 1. The old file is then cut to 11 bytes, so that the read of 8 bytes at offset
  8 returns 3 bytes. \<open>apply_patch\<close> raises nothing and replaces the target by a tree
  whose file holds those 3 bytes.
\<close>

theorem truncated_source_counterexample:
  "diff decode_ascii ''old'' ''new''
       \<lparr>roots = map_of [(''old'', [(''a'', File ''AAAAAAAAXXXXXXXX'')]),
                         (''new'', [(''a'', File ''BBBBBBBBAAAAAAAA'')])],
         staging = None, log = []\<rparr>
     = Inr \<lparr>old_dirs = [], new_dirs = [], deleted_files = [], extra_files = [],
        operations = [Operation_init BLOCK_RANGE 1 1 [] ''a'']\<rparr> \<and>
   fst (apply_patch
       \<lparr>old_dirs = [], new_dirs = [], deleted_files = [], extra_files = [],
        operations = [Operation_init BLOCK_RANGE 1 1 [] ''a'']\<rparr>
       ''old'' ''old''
       \<lparr>roots = map_of [(''old'', [(''a'', File ''AAAAAAAAXXX'')])],
         staging = None, log = []\<rparr>) = None \<and>
   roots (snd (apply_patch
       \<lparr>old_dirs = [], new_dirs = [], deleted_files = [], extra_files = [],
        operations = [Operation_init BLOCK_RANGE 1 1 [] ''a'']\<rparr>
       ''old'' ''old''
       \<lparr>roots = map_of [(''old'', [(''a'', File ''AAAAAAAAXXX'')])],
         staging = None, log = []\<rparr>)) ''old'' = Some [(''a'', File ''XXX'')]"
  by code_simp

text \<open>
  C3, amended: when \<open>apply_patch\<close> processes a \<open>BLOCK_RANGE\<close> operation with
  \<open>block_index\<close> and \<open>block_span\<close> not negative, on an old file that can be opened and a
  staged path that is free or a regular file, no error is raised, however short the old
  file is: the bytes that the old file has from offset \<open>block_index * BLOCK_SIZE\<close> on, at
  most \<open>block_span * BLOCK_SIZE\<close> of them and possibly none, are written to the staged
  file. The code has no \<open>SourceMismatch\<close> error.
\<close>

theorem block_range_short_read:
  assumes "op_type x = BLOCK_RANGE"
    and "open_rb (roots s old_dir) (target_path x) = Inr c"
    and "0 \<le> block_index x" and "0 \<le> block_span x"
    and "staging s = Some st"
    and "map_of st (target_path x) = None \<or> (\<exists>d. map_of st (target_path x) = Some (File d))"
  shows "apply_operation old_dir x s =
    (None, s\<lparr>staging := Some (AList.update (target_path x)
       (File (take (nat (block_span x) * BLOCK_SIZE) (drop (nat (block_index x) * BLOCK_SIZE) c))) st)\<rparr>)"
proof -
  from assms(3,4) have off: "\<not> block_index x * int BLOCK_SIZE < 0"
    and len: "\<not> block_span x * int BLOCK_SIZE < - 1" "block_span x * int BLOCK_SIZE \<noteq> - 1"
    by (simp_all add: mult_less_0_iff BLOCK_SIZE_def)
  from assms(3,4) have
    rd: "seek_read c (block_index x * int BLOCK_SIZE) (block_span x * int BLOCK_SIZE) =
      Inr (take (nat (block_span x) * BLOCK_SIZE) (drop (nat (block_index x) * BLOCK_SIZE) c))"
    unfolding seek_read_def using off len by (simp add: nat_mult_distrib)
  from assms(5,6) have
    wr: "write_wb (target_path x) d s =
      (None, s\<lparr>staging := Some (AList.update (target_path x) (File d) st)\<rparr>)" for d
    by (auto simp: write_wb_def)
  from assms(1,2) rd wr show ?thesis by (simp add: apply_operation_def)
qed

theorem block_range_short_read_witness:
  "open_rb (roots (mkdtemp \<lparr>roots = map_of [(''old'', [(''a'', File ''AAAAAAAAXXX'')])],
         staging = None, log = []\<rparr>) ''old'') ''a'' = Inr ''AAAAAAAAXXX'' \<and>
   apply_operation ''old'' (Operation_init BLOCK_RANGE 1 1 [] ''a'')
     (mkdtemp \<lparr>roots = map_of [(''old'', [(''a'', File ''AAAAAAAAXXX'')])],
         staging = None, log = []\<rparr>) =
   (None, (mkdtemp \<lparr>roots = map_of [(''old'', [(''a'', File ''AAAAAAAAXXX'')])],
         staging = None, log = []\<rparr>)
       \<lparr>staging := Some [(''a'', File ''XXX'')]\<rparr>)"
proof -
  let ?x = "Operation_init BLOCK_RANGE 1 1 [] ''a''"
  let ?s = "mkdtemp \<lparr>roots = map_of [(''old'', [(''a'', File ''AAAAAAAAXXX'')])],
         staging = None, log = []\<rparr>"
  have h1: "op_type ?x = BLOCK_RANGE" by (simp add: Operation_init_def)
  have h2: "open_rb (roots ?s ''old'') (target_path ?x) = Inr ''AAAAAAAAXXX''"
    by (simp add: Operation_init_def mkdtemp_def open_rb_def)
  have h3: "0 \<le> block_index ?x" and h4: "0 \<le> block_span ?x"
    by (simp_all add: Operation_init_def)
  have h5: "staging ?s = Some []" by (simp add: mkdtemp_def)
  have h6: "map_of [] (target_path ?x) = None \<or>
      (\<exists>d. map_of ([] :: entries) (target_path ?x) = Some (File d))" by simp
  from block_range_short_read [OF h1 h2 h3 h4 h5 h6] h2
  show ?thesis by (simp add: Operation_init_def BLOCK_SIZE_def)
qed

subsection \<open>C10: the order of finalization\<close>



subsection \<open>C9: the operations that are applied\<close>



subsection \<open>C6: bytes appended to a file\<close>

text \<open>
  Counterexample to C6. The old file is one block, the new file is the same block and the
  three bytes \<open>BBB\<close>. The patch holds one \<open>DATA\<close> operation with the three bytes and no
  \<open>BLOCK_RANGE\<close> operation: blocks that are equal in both files are passed over without
  an operation.
\<close>

theorem append_bytes_counterexample:
  "diff decode_ascii ''old'' ''new''
     \<lparr>roots = map_of [(''old'', [(''a'', File ''AAAAAAAA'')]),
                       (''new'', [(''a'', File ''AAAAAAAABBB'')])],
      staging = None, log = []\<rparr>
   = Inr \<lparr>old_dirs = [], new_dirs = [], deleted_files = [], extra_files = [],
          operations = [Operation_init DATA 0 0 ''BBB'' ''a'']\<rparr> \<and>
   [Operation_init DATA 0 0 ''BBB'' ''a''] \<noteq>
   [Operation_init BLOCK_RANGE 0 1 [] ''a'', Operation_init DATA 0 0 ''BBB'' ''a'']"
  by code_simp

text \<open>
  C6, amended: for every regular file of size \<open>k * BLOCK_SIZE\<close> present in both trees to
  whose end \<open>n\<close> bytes are appended, with \<open>1 \<le> n \<le> BLOCK_SIZE\<close>, and provided that the
  files that \<open>diff\<close> reads in text mode can be decoded (otherwise \<open>diff\<close> raises and
  returns no patch), \<open>diff\<close> returns a patch whose operations for that file are exactly
  one \<open>DATA\<close> operation carrying the appended bytes; there is no \<open>BLOCK_RANGE\<close> operation
  for the unchanged blocks. The operations for the file are those with its path as target,
  \<open>SYMLINK\<close> operations apart, whose target is a link text.
\<close>

theorem append_bytes_ops:
  assumes ro: "roots s old_dir = Some eo" and rn: "roots s new_dir = Some en"
    and d_o: "distinct (map fst eo)" and d_n: "distinct (map fst en)"
    and fo: "map_of eo f = Some (File c)" and fn: "map_of en f = Some (File (c @ a))"
    and len: "length c = k * BLOCK_SIZE" and a: "a \<noteq> []" "length a \<le> BLOCK_SIZE"
    and ok: "text_reads_ok dec eo en"
  shows "\<exists>p. diff dec old_dir new_dir s = Inr p \<and>
     filter (\<lambda>x. target_path x = f \<and> op_type x \<noteq> SYMLINK) (operations p) =
       [Operation_init DATA 0 0 a f]"
proof -
  let ?P = "\<lambda>x. target_path x = f \<and> op_type x \<noteq> SYMLINK"
  let ?del = "filter (\<lambda>g. g \<notin> set (files_of en)) (remdups (files_of eo))"
  let ?ext = "filter (\<lambda>g. g \<notin> set (files_of eo)) (remdups (files_of en))"
  let ?com = "filter (\<lambda>g. g \<in> set (files_of en)) (remdups (files_of eo))"
  let ?E = "\<lambda>g. projr (extra_ops dec (Some en) g)"
  let ?C = "\<lambda>g. projr (common_ops dec (Some eo) (Some en) g)"
  from fo have f_old: "f \<in> set (files_of eo)" by (rule file_entry_listed) simp
  from fn have f_new: "f \<in> set (files_of en)" by (rule file_entry_listed) simp
  have ex: "collect (extra_ops dec (Some en)) ?ext = Inr (concat (map ?E ?ext))"
    by (rule collect_Inr) (use extra_ops_file [OF d_n _ ok] in auto)
  have cm: "collect (common_ops dec (Some eo) (Some en)) ?com = Inr (concat (map ?C ?com))"
    by (rule collect_Inr) (use common_ops_file [OF d_o d_n _ _ ok] in auto)
  have p_del: "filter ?P (map (Operation_init DELETE 0 0 []) ?del) = []"
    using f_new by (auto simp: filter_empty_conv Operation_init_def)
  have p_ext: "filter ?P (concat (map ?E ?ext)) = []"
  proof -
    have "\<not> ?P x" if "g \<in> set ?ext" "x \<in> set (?E g)" for g x
    proof -
      from that(1) have g: "g \<in> set (files_of en)" "g \<noteq> f" using f_old by auto
      from extra_ops_file [OF d_n g(1) ok] that(2)
      have "op_type x = SYMLINK \<or> target_path x = g" by auto
      with g(2) show ?thesis by auto
    qed
    then show ?thesis by (auto simp: filter_empty_conv)
  qed
  have p_com: "filter ?P (concat (map ?C ?com)) = [Operation_init DATA 0 0 a f]"
  proof -
    have "filter ?P (concat (map ?C ?com)) = concat (map (\<lambda>g. filter ?P (?C g)) ?com)"
      by (simp add: filter_concat comp_def)
    also have "\<dots> = filter ?P (?C f)"
    proof (rule concat_single)
      show "distinct ?com" by simp
      show "f \<in> set ?com" using f_old f_new by simp
      fix g assume g: "g \<in> set ?com" "g \<noteq> f"
      then have "g \<in> set (files_of eo)" "g \<in> set (files_of en)" by auto
      from common_ops_file [OF d_o d_n this ok]
      have "\<forall>x\<in>set (?C g). op_type x = SYMLINK \<or> target_path x = g" by auto
      with g(2) show "filter ?P (?C g) = []" by (auto simp: filter_empty_conv)
    qed
    also have "?C f = [Operation_init DATA 0 0 a f]"
      by (simp add: common_ops_regular [OF fo fn] diff_loop_append [OF len a])
    finally show ?thesis by (simp add: Operation_init_def)
  qed
  show ?thesis
    by (simp add: diff_on_dirs [OF ro rn] ex cm p_del p_ext p_com del: filter_concat)
qed

text \<open>
  The theorem at two trees whose common file \<open>a\<close> has two blocks and gets three bytes
  more; the new tree also holds a new file and a link to it, which \<open>diff\<close> reads as text.
\<close>

theorem append_bytes_ops_witness:
  "text_reads_ok decode_ascii
     [(''a'', File ''AAAAAAAABBBBBBBB''), (''b'', File ''q'')]
     [(''a'', File ''AAAAAAAABBBBBBBBCCC''), (''z'', File ''new''),
      (''l'', Symlink ''z'' (ToFile ''new''))] \<and>
   (\<exists>p. diff decode_ascii ''old'' ''new''
       \<lparr>roots = map_of
          [(''old'', [(''a'', File ''AAAAAAAABBBBBBBB''), (''b'', File ''q'')]),
           (''new'', [(''a'', File ''AAAAAAAABBBBBBBBCCC''), (''z'', File ''new''),
                      (''l'', Symlink ''z'' (ToFile ''new''))])],
        staging = None, log = []\<rparr> = Inr p \<and>
     filter (\<lambda>x. target_path x = ''a'' \<and> op_type x \<noteq> SYMLINK) (operations p) =
       [Operation_init DATA 0 0 ''CCC'' ''a''])"
proof -
  let ?s = "\<lparr>roots = map_of
          [(''old'', [(''a'', File ''AAAAAAAABBBBBBBB''), (''b'', File ''q'')]),
           (''new'', [(''a'', File ''AAAAAAAABBBBBBBBCCC''), (''z'', File ''new''),
                      (''l'', Symlink ''z'' (ToFile ''new''))])],
        staging = None, log = []\<rparr>"
  let ?eo = "[(''a'', File ''AAAAAAAABBBBBBBB''), (''b'', File ''q'')]"
  let ?en = "[(''a'', File ''AAAAAAAABBBBBBBBCCC''), (''z'', File ''new''),
      (''l'', Symlink ''z'' (ToFile ''new''))]"
  have h1: "roots ?s ''old'' = Some ?eo" and h2: "roots ?s ''new'' = Some ?en" by simp_all
  have h3: "distinct (map fst ?eo)" and h4: "distinct (map fst ?en)" by simp_all
  have h5: "map_of ?eo ''a'' = Some (File ''AAAAAAAABBBBBBBB'')" by simp
  have h6: "map_of ?en ''a'' = Some (File (''AAAAAAAABBBBBBBB'' @ ''CCC''))" by simp
  have h7: "length ''AAAAAAAABBBBBBBB'' = 2 * BLOCK_SIZE" by (simp add: BLOCK_SIZE_def)
  have h8: "''CCC'' \<noteq> []" and h9: "length ''CCC'' \<le> BLOCK_SIZE"
    by (simp_all add: BLOCK_SIZE_def)
  have h10: "text_reads_ok decode_ascii ?eo ?en" by code_simp
  from append_bytes_ops [OF h1 h2 h3 h4 h5 h6 h7 h8 h9 h10] h10 show ?thesis by blast
qed

subsection \<open>C7: the diff of a tree with itself\<close>

text \<open>
  Counterexample to C7. The tree holds a regular file and a symbolic link to it. The link
  counts as a file of both scans, and for a common path that is a link \<open>diff\<close> emits a
  \<open>SYMLINK\<close> operation: the operations of \<open>diff(T, T)\<close> are not empty.
\<close>

theorem diff_same_tree_counterexample:
  "diff decode_ascii ''t'' ''t''
     \<lparr>roots = map_of [(''t'', [(''a'', File ''x''), (''l'', Symlink ''a'' (ToFile ''x''))])],
      staging = None, log = []\<rparr>
   = Inr \<lparr>old_dirs = [], new_dirs = [], deleted_files = [], extra_files = [],
          operations = [Operation_init SYMLINK 0 0 [] ''x'']\<rparr>"
  by code_simp

text \<open>
  C7, amended: for every directory tree \<open>T\<close> (a directory whose entries have distinct
  names) with no symbolic link to a regular file among the entries of its root,
  \<open>diff(T, T)\<close> returns a patch whose operations, deleted paths and extra paths are all
  empty.
\<close>

theorem diff_same_tree:
  assumes r: "roots s d = Some es" and dist: "distinct (map fst es)" and nl: "no_file_links es"
  shows "diff dec d d s =
     Inr \<lparr>old_dirs = dirs_of es, new_dirs = dirs_of es, deleted_files = [], extra_files = [],
          operations = []\<rparr>"
proof -
  let ?fs = "files_of es"
  have none: "filter (\<lambda>f. f \<notin> set ?fs) (remdups ?fs) = []" by (simp add: filter_empty_conv)
  have each: "common_ops dec (Some es) (Some es) g = Inr []" if "g \<in> set ?fs" for g
  proof -
    from files_of_lookup [OF dist that] obtain x where
      x: "map_of es g = Some x" "is_file x" by blast
    then have "(g, x) \<in> set es" by (auto dest: map_of_SomeD)
    with nl x(2) have "\<not> is_link x" by (auto simp: no_file_links_def list_all_iff)
    with is_file_regular [OF x(2)] obtain c where "x = File c" by blast
    with x(1) show ?thesis by (simp add: common_ops_regular diff_loop_same)
  qed
  have "collect (common_ops dec (Some es) (Some es))
      (filter (\<lambda>f. f \<in> set ?fs) (remdups ?fs)) = Inr []"
    by (rule collect_Nil) (simp add: each)
  then show ?thesis by (simp add: diff_on_dirs [OF r r] none)
qed

theorem diff_same_tree_witness:
  "distinct (map fst
         [(''a'', File ''AAAAAAAAB''), (''d'', Dir [(''x'', File ''1'')]),
          (''l'', Symlink ''d'' ToDir)]) \<and>
   no_file_links
         [(''a'', File ''AAAAAAAAB''), (''d'', Dir [(''x'', File ''1'')]),
          (''l'', Symlink ''d'' ToDir)] \<and>
   diff decode_ascii ''t'' ''t''
     \<lparr>roots = map_of [(''t'',
         [(''a'', File ''AAAAAAAAB''), (''d'', Dir [(''x'', File ''1'')]),
          (''l'', Symlink ''d'' ToDir)])],
      staging = None, log = []\<rparr>
   = Inr \<lparr>old_dirs = [''d'', ''l''], new_dirs = [''d'', ''l''], deleted_files = [],
          extra_files = [], operations = []\<rparr>"
proof -
  let ?es = "[(''a'', File ''AAAAAAAAB''), (''d'', Dir [(''x'', File ''1'')]),
          (''l'', Symlink ''d'' ToDir)]"
  let ?s = "\<lparr>roots = map_of [(''t'', ?es)], staging = None, log = []\<rparr>"
  have h1: "roots ?s ''t'' = Some ?es" by simp
  have h2: "distinct (map fst ?es)" by simp
  have h3: "no_file_links ?es" by (simp add: no_file_links_def)
  have d: "dirs_of ?es = [''d'', ''l'']" by (simp add: dirs_of_def)
  from diff_same_tree [OF h1 h2 h3, of decode_ascii] h2 h3 d show ?thesis by simp
qed

subsection \<open>C8: one directory level\<close>

text \<open>
  Counterexample to C8. The new root holds the directory \<open>d\<close> and the symbolic link \<open>l\<close>
  with the text \<open>d/in\<close>. In the first tree \<open>d\<close> contains the file \<open>in\<close>, so the link
  resolves to a regular file: \<open>scan_dir\<close> lists it as a file, it is an extra path and
  gets a \<open>SYMLINK\<close> operation with the content of \<open>d/in\<close>. The second tree is the first
  with \<open>d\<close> emptied, so the link dangles and \<open>scan_dir\<close> passes it over: no extra path
  and no operation. The content of a subdirectory decides an extra path and an
  operation.
\<close>

theorem link_into_subdirectory_counterexample:
  "diff decode_ascii ''old'' ''new''
     \<lparr>roots = map_of [(''old'', []),
          (''new'', [(''d'', Dir [(''in'', File ''x'')]),
                     (''l'', Symlink ''d/in'' (ToFile ''x''))])],
      staging = None, log = []\<rparr>
   = Inr \<lparr>old_dirs = [], new_dirs = [''d''], deleted_files = [], extra_files = [''l''],
          operations = [Operation_init SYMLINK 0 0 [] ''x'']\<rparr> \<and>
   diff decode_ascii ''old'' ''new''
     \<lparr>roots = map_of [(''old'', []),
          (''new'', [(''d'', Dir []), (''l'', Symlink ''d/in'' Dangling)])],
      staging = None, log = []\<rparr>
   = Inr \<lparr>old_dirs = [], new_dirs = [''d''], deleted_files = [], extra_files = [],
          operations = []\<rparr>"
  by code_simp

text \<open>
  C8, amended: \<open>diff\<close> compares only the immediate entries of the two roots: \<open>scan_dir\<close>
  lists a single directory level, entries that are neither files nor directories (nor
  links to one) are silently skipped, and \<open>diff\<close> never recurses. The patch (or the
  error) is decided by what one listing of each root shows, links followed: the names of
  the entries that are directories, and for every entry that is a regular file its name,
  the content read through it and whether the entry is a symbolic link. So for trees
  (the names of a directory's entries are distinct) the contents of subdirectories
  contribute no operation, no deleted path and no extra path, except through an entry of
  a root that is a symbolic link resolving into a subdirectory.
\<close>

theorem diff_reads_one_level:
  assumes ro: "roots s old_dir = Some eo" and rn: "roots s new_dir = Some en"
    and ro': "roots s' old_dir = Some eo'" and rn': "roots s' new_dir = Some en'"
    and d_o: "distinct (map fst eo)" and d_n: "distinct (map fst en)"
    and d_o': "distinct (map fst eo')" and d_n': "distinct (map fst en')"
    and lo: "listing eo' = listing eo" and ln: "listing en' = listing en"
  shows "diff dec old_dir new_dir s' = diff dec old_dir new_dir s"
proof -
  have fo: "files_of eo' = files_of eo" and fn: "files_of en' = files_of en"
    and dio: "dirs_of eo' = dirs_of eo" and din: "dirs_of en' = dirs_of en"
    by (simp_all add: files_of_listing dirs_of_listing lo ln)
  let ?ext = "filter (\<lambda>g. g \<notin> set (files_of eo)) (remdups (files_of en))"
  let ?com = "filter (\<lambda>g. g \<in> set (files_of en)) (remdups (files_of eo))"
  have e1: "extra_ops dec (Some en') g = extra_ops dec (Some en) g" if "g \<in> set ?ext" for g
  proof -
    from that fn have "g \<in> set (files_of en')" by simp
    note k = listing_lookup [OF d_n' d_n ln this]
    show ?thesis unfolding extra_ops_def k ..
  qed
  have c1: "common_ops dec (Some eo') (Some en') g = common_ops dec (Some eo) (Some en) g"
    if "g \<in> set ?com" for g
  proof -
    from that fo fn have g: "g \<in> set (files_of eo')" "g \<in> set (files_of en')" by simp_all
    note ko = listing_lookup [OF d_o' d_o lo g(1)]
    note kn = listing_lookup [OF d_n' d_n ln g(2)]
    show ?thesis unfolding common_ops_def ko kn ..
  qed
  have ex: "collect (extra_ops dec (Some en')) ?ext = collect (extra_ops dec (Some en)) ?ext"
    by (rule collect_cong) (rule e1)
  have cm: "collect (common_ops dec (Some eo') (Some en')) ?com =
      collect (common_ops dec (Some eo) (Some en)) ?com"
    by (rule collect_cong) (rule c1)
  show ?thesis
    unfolding diff_on_dirs [OF ro' rn'] diff_on_dirs [OF ro rn] fo fn dio din ex cm ..
qed

text \<open>
  The theorem at two pairs of trees with the same listings. In the second pair the entry
  \<open>p\<close>, which is neither file nor directory, is gone, the subdirectories have other
  contents, and the link \<open>l\<close> has another text that resolves to the same file.
\<close>

theorem diff_reads_one_level_witness:
  "listing [(''a'', File ''x''), (''d'', Dir [])] =
   listing [(''a'', File ''x''), (''d'', Dir [(''in'', File ''1'')]), (''p'', Other)] \<and>
   listing [(''a'', File ''y''), (''d'', Dir [(''z'', File ''9'')]),
            (''l'', Symlink ''./a'' (ToFile ''y''))] =
   listing [(''a'', File ''y''), (''d'', Dir [(''in'', File ''2''), (''more'', File ''3'')]),
            (''l'', Symlink ''a'' (ToFile ''y''))] \<and>
   diff decode_ascii ''old'' ''new''
     \<lparr>roots = map_of [(''old'', [(''a'', File ''x''), (''d'', Dir [])]),
          (''new'', [(''a'', File ''y''), (''d'', Dir [(''z'', File ''9'')]),
            (''l'', Symlink ''./a'' (ToFile ''y''))])],
      staging = None, log = []\<rparr> =
   diff decode_ascii ''old'' ''new''
     \<lparr>roots = map_of [(''old'', [(''a'', File ''x''), (''d'', Dir [(''in'', File ''1'')]), (''p'', Other)]),
          (''new'', [(''a'', File ''y''), (''d'', Dir [(''in'', File ''2''), (''more'', File ''3'')]),
            (''l'', Symlink ''a'' (ToFile ''y''))])],
      staging = None, log = []\<rparr> \<and>
   diff decode_ascii ''old'' ''new''
     \<lparr>roots = map_of [(''old'', [(''a'', File ''x''), (''d'', Dir [(''in'', File ''1'')]), (''p'', Other)]),
          (''new'', [(''a'', File ''y''), (''d'', Dir [(''in'', File ''2''), (''more'', File ''3'')]),
            (''l'', Symlink ''a'' (ToFile ''y''))])],
      staging = None, log = []\<rparr> =
   Inr \<lparr>old_dirs = [''d''], new_dirs = [''d''], deleted_files = [], extra_files = [''l''],
        operations = [Operation_init SYMLINK 0 0 [] ''y'', Operation_init DATA 0 0 ''y'' ''a'']\<rparr>"
proof -
  let ?eo = "[(''a'', File ''x''), (''d'', Dir [(''in'', File ''1'')]), (''p'', Other)]"
  let ?en = "[(''a'', File ''y''), (''d'', Dir [(''in'', File ''2''), (''more'', File ''3'')]),
            (''l'', Symlink ''a'' (ToFile ''y''))]"
  let ?eo' = "[(''a'', File ''x''), (''d'', Dir [])]"
  let ?en' = "[(''a'', File ''y''), (''d'', Dir [(''z'', File ''9'')]),
            (''l'', Symlink ''./a'' (ToFile ''y''))]"
  let ?s = "\<lparr>roots = map_of [(''old'', ?eo), (''new'', ?en)], staging = None, log = []\<rparr>"
  let ?s' = "\<lparr>roots = map_of [(''old'', ?eo'), (''new'', ?en')], staging = None, log = []\<rparr>"
  have h1: "roots ?s ''old'' = Some ?eo" and h2: "roots ?s ''new'' = Some ?en" by simp_all
  have h3: "roots ?s' ''old'' = Some ?eo'" and h4: "roots ?s' ''new'' = Some ?en'" by simp_all
  have h5: "distinct (map fst ?eo)" and h6: "distinct (map fst ?en)"
    and h7: "distinct (map fst ?eo')" and h8: "distinct (map fst ?en')" by simp_all
  have h9: "listing ?eo' = listing ?eo" and h10: "listing ?en' = listing ?en"
    by (simp_all add: listing_def)
  have ev: "diff decode_ascii ''old'' ''new'' ?s =
      Inr \<lparr>old_dirs = [''d''], new_dirs = [''d''], deleted_files = [], extra_files = [''l''],
        operations = [Operation_init SYMLINK 0 0 [] ''y'', Operation_init DATA 0 0 ''y'' ''a'']\<rparr>"
    by code_simp
  from diff_reads_one_level [OF h1 h2 h3 h4 h5 h6 h7 h8 h9 h10, of decode_ascii] h9 h10 ev
  show ?thesis by blast
qed

end
